theory Spec2Isabelle
  imports Main "HOL-Library.AList" "HOL-Library.List_Lexorder" "HOL-Library.Char_ord"
    "HOL-Library.Sublist"
begin

section \<open>Common data: exceptions and dictionaries\<close>

text \<open>
  The exceptions the modelled code raises. \<open>SystemExit\<close> carries the exit status of
  \<^verbatim>\<open>sys.exit\<close>; \<open>OperationalError\<close>, \<open>IntegrityError\<close> and \<open>ProgrammingError\<close> are
  the errors of the \<^verbatim>\<open>sqlite3\<close> module that the modelled statements can raise.
\<close>

datatype error =
    KeyError
  | ValueError
  | AttributeError
  | IndexError
  | AssertionError
  | NotImplementedError
  | NameError
  | OperationalError
  | IntegrityError
  | ProgrammingError
  | SystemExit int

text \<open>
  A Python \<^verbatim>\<open>dict\<close> is modelled by the sequence of its items: an association list
  with distinct keys, in iteration order. \<^verbatim>\<open>d[k] = v\<close> replaces the value of an
  existing key in place and appends a new key; \<^verbatim>\<open>d.update(e)\<close> does so for every
  item of \<open>e\<close>.
\<close>

definition dict_setitem :: "('k \<times> 'v) list \<Rightarrow> 'k \<Rightarrow> 'v \<Rightarrow> ('k \<times> 'v) list" where
  "dict_setitem d k v = AList.update k v d"

definition dict_update :: "('k \<times> 'v) list \<Rightarrow> ('k \<times> 'v) list \<Rightarrow> ('k \<times> 'v) list" where
  "dict_update d e = foldl (\<lambda>m (k, v). dict_setitem m k v) d e"

section \<open>Identity hasher: \<^verbatim>\<open>Experiment.__setup_output_directory\<close>\<close>

text \<open>
  \<^verbatim>\<open>"version %d" % self.version\<close> prints the version in decimal, with a minus sign
  for a negative number.
\<close>

definition digit_char :: "nat \<Rightarrow> char" where
  "digit_char n = ''0123456789'' ! n"

fun str_nat :: "nat \<Rightarrow> string" where
  "str_nat n = (if n < 10 then [digit_char n] else str_nat (n div 10) @ [digit_char (n mod 10)])"

declare str_nat.simps [simp del]

definition format_d :: "int \<Rightarrow> string" where
  "format_d i = (if i < 0 then CHR ''-'' # str_nat (nat (- i)) else str_nat (nat i))"

text \<open>
  The metadata dictionary starts empty and is updated with the contribution
  \<^verbatim>\<open>inp_metadata()\<close> of every input parameter, in the iteration order of
  \<^verbatim>\<open>self.inputs\<close>.
\<close>

definition collect_metadata :: "(string \<times> string) list list \<Rightarrow> (string \<times> string) list" where
  "collect_metadata contributions = foldl dict_update [] contributions"

text \<open>
  The MD5 object is modelled by the text fed to it so far: successive calls of
  \<^verbatim>\<open>m.update\<close> hash the concatenation of their arguments. The loop
  \<^verbatim>\<open>for key in sorted(metadata.keys()): m.update(key + " " + metadata[key])\<close>
  reads the dictionary at every key; a key that is missing raises \<open>KeyError\<close>.
\<close>

fun md5_update_all :: "string list \<Rightarrow> (string \<times> string) list \<Rightarrow> string \<Rightarrow> error + string" where
  "md5_update_all [] metadata m = Inr m"
| "md5_update_all (key # keys) metadata m =
     (case map_of metadata key of
        None \<Rightarrow> Inl KeyError
      | Some v \<Rightarrow> md5_update_all keys metadata (m @ key @ '' '' @ v))"

definition digest_input :: "int \<Rightarrow> (string \<times> string) list \<Rightarrow> error + string" where
  "digest_input version metadata =
     md5_update_all (sort (map fst metadata)) metadata (''version '' @ format_d version)"

text \<open>
  The digest function itself (\<^verbatim>\<open>hashlib.md5\<close>, from text to its hexadecimal digest) is
  a parameter \<open>hexdigest\<close> of the model. The identifier is
  \<^verbatim>\<open>"%s-%s" % (self.title, m.hexdigest())\<close>.
\<close>

definition experiment_instance ::
  "(string \<Rightarrow> string) \<Rightarrow> string \<Rightarrow> int \<Rightarrow> (string \<times> string) list \<Rightarrow> error + string" where
  "experiment_instance hexdigest title version metadata =
     (case digest_input version metadata of
        Inl e \<Rightarrow> Inl e
      | Inr m \<Rightarrow> Inr (title @ ''-'' @ hexdigest m))"

text \<open>The text of the items in key order, as the loop appends it to the MD5 object.\<close>

definition render :: "(string \<Rightarrow> string) \<Rightarrow> string list \<Rightarrow> string" where
  "render f keys = concat (map (\<lambda>key. key @ '' '' @ f key) keys)"

section \<open>Connection registry: \<^verbatim>\<open>Database_SQLite.__connect\<close> and \<^verbatim>\<open>__disconnect\<close>\<close>

text \<open>
  The class attribute \<^verbatim>\<open>database_connections\<close> maps a path to the pair of a database
  handle and its use count. A handle is the identity of a connection object: every
  call of \<^verbatim>\<open>sqlite3.connect\<close> that returns makes a new object, so the model numbers the
  handles in the order in which they are opened. The calls \<^verbatim>\<open>db.commit()\<close> and
  \<^verbatim>\<open>db.close()\<close> that return are recorded, in order, with the handle they are made
  on.
\<close>

record registry =
  database_connections :: "string \<rightharpoonup> nat \<times> int"
  next_handle :: nat
  commits :: "nat list"
  closed :: "nat list"

definition initial_registry :: registry where
  "initial_registry =
     \<lparr>database_connections = Map.empty, next_handle = 0, commits = [], closed = []\<rparr>"

text \<open>
  The three calls into the \<^verbatim>\<open>sqlite3\<close> library can raise (a path that cannot be opened,
  a commit or a close that the engine refuses). What the library does at one call of
  \<^verbatim>\<open>__connect\<close> or \<^verbatim>\<open>__disconnect\<close> is an input of the model: for each of the three
  library calls, the exception it raises if it is reached, or \<open>None\<close> when it returns.
\<close>

record library =
  connect_raises :: "error option"
  commit_raises :: "error option"
  close_raises :: "error option"

definition no_failure :: "library \<Rightarrow> bool" where
  "no_failure l = (connect_raises l = None \<and> commit_raises l = None \<and> close_raises l = None)"

definition reliable :: library where
  "reliable = \<lparr>connect_raises = None, commit_raises = None, close_raises = None\<rparr>"

text \<open>
  \<^verbatim>\<open>__connect\<close>: a path with an entry gets its count incremented and the handle of the
  entry is returned, without any library call; otherwise \<^verbatim>\<open>sqlite3.connect(path)\<close> is
  called, and when it raises the registry is left as it was.
\<close>

definition connect :: "library \<Rightarrow> string \<Rightarrow> registry \<Rightarrow> (error + nat) \<times> registry" where
  "connect l path s =
     (case database_connections s path of
        Some (db, count) \<Rightarrow>
          (Inr db, s\<lparr>database_connections := (database_connections s)(path \<mapsto> (db, count + 1))\<rparr>)
      | None \<Rightarrow>
          (case connect_raises l of
             Some e \<Rightarrow> (Inl e, s)
           | None \<Rightarrow>
               (let conn = next_handle s
                in (Inr conn,
                    s\<lparr>next_handle := Suc conn,
                      database_connections := (database_connections s)(path \<mapsto> (conn, 1))\<rparr>))))"

text \<open>
  \<^verbatim>\<open>__disconnect\<close> reads the entry first: a path with no entry raises \<open>KeyError\<close>.
  Then it commits; a commit that raises leaves the entry as it was. With a count of
  one the handle is closed and the entry deleted, in this order, so a close that raises
  leaves the entry in place; with another count the entry is written back with the
  count decremented. The result is the exception raised, if any, and the registry.
\<close>

definition disconnect :: "library \<Rightarrow> string \<Rightarrow> registry \<Rightarrow> error option \<times> registry" where
  "disconnect l path s =
     (case database_connections s path of
        None \<Rightarrow> (Some KeyError, s)
      | Some (db, count) \<Rightarrow>
          (case commit_raises l of
             Some e \<Rightarrow> (Some e, s)
           | None \<Rightarrow>
               (let s1 = s\<lparr>commits := commits s @ [db]\<rparr>
                in if count = 1
                   then (case close_raises l of
                           Some e \<Rightarrow> (Some e, s1)
                         | None \<Rightarrow>
                             (None, s1\<lparr>closed := closed s1 @ [db],
                                        database_connections :=
                                          (database_connections s1)(path := None)\<rparr>))
                   else (None, s1\<lparr>database_connections :=
                                    (database_connections s1)(path \<mapsto> (db, count - 1))\<rparr>))))"

text \<open>
  A sequence of calls, each with what the library does during it; the run stops at the
  first exception.
\<close>

datatype call = Connect string | Disconnect string

definition call_step ::
  "error option \<times> registry \<Rightarrow> call \<times> library \<Rightarrow> error option \<times> registry" where
  "call_step r c =
     (case r of
        (Some e, s) \<Rightarrow> (Some e, s)
      | (None, s) \<Rightarrow>
          (case fst c of
             Connect path \<Rightarrow>
               (case connect (snd c) path s of
                  (Inl e, s') \<Rightarrow> (Some e, s')
                | (Inr db, s') \<Rightarrow> (None, s'))
           | Disconnect path \<Rightarrow> disconnect (snd c) path s))"

definition run_calls :: "(call \<times> library) list \<Rightarrow> registry \<Rightarrow> error option \<times> registry" where
  "run_calls cs s = foldl call_step (None, s) cs"

text \<open>The use count of a path: zero when the path has no entry.\<close>

definition refcount :: "registry \<Rightarrow> string \<Rightarrow> int" where
  "refcount s path = (case database_connections s path of None \<Rightarrow> 0 | Some (db, count) \<Rightarrow> count)"

definition connects :: "string \<Rightarrow> call list \<Rightarrow> nat" where
  "connects path cs = length (filter (\<lambda>c. c = Connect path) cs)"

definition disconnects :: "string \<Rightarrow> call list \<Rightarrow> nat" where
  "disconnects path cs = length (filter (\<lambda>c. c = Disconnect path) cs)"

text \<open>
  A sequence of calls never disconnects a path more often than it has connected it: at
  every prefix the disconnects are at most the connects.
\<close>

definition never_overdrawn :: "string \<Rightarrow> call list \<Rightarrow> bool" where
  "never_overdrawn path cs =
     (\<forall>pre \<in> set (prefixes cs). disconnects path pre \<le> connects path pre)"

text \<open>
  The invariant of a run on one path \<open>p\<close> in which no library call raises, from a
  registry \<open>s0\<close> that has no entry for \<open>p\<close>: the other entries are untouched; when the
  calls so far are balanced the entry is absent and every handle opened since \<open>s0\<close> has
  been closed, once and in order; otherwise the entry holds the handle opened last, with
  the balance as its use count, and that handle alone is still open.
\<close>

definition registry_inv :: "registry \<Rightarrow> string \<Rightarrow> call list \<Rightarrow> registry \<Rightarrow> bool" where
  "registry_inv s0 p cs s =
     ((\<forall>q. q \<noteq> p \<longrightarrow> database_connections s q = database_connections s0 q) \<and>
      next_handle s0 \<le> next_handle s \<and>
      (if connects p cs = disconnects p cs
       then database_connections s p = None \<and>
            closed s = closed s0 @ [next_handle s0 ..< next_handle s]
       else next_handle s0 < next_handle s \<and>
            database_connections s p =
              Some (next_handle s - 1, int (connects p cs) - int (disconnects p cs)) \<and>
            closed s = closed s0 @ [next_handle s0 ..< next_handle s - 1]))"

text \<open>The use count of a path, when the path has an entry, is at least one.\<close>

definition positive_count :: "registry \<Rightarrow> string \<Rightarrow> bool" where
  "positive_count s path =
     (\<forall>db count. database_connections s path = Some (db, count) \<longrightarrow> 1 \<le> count)"

section \<open>The database engine as the code uses it\<close>

text \<open>
  The values that are bound to the placeholders of a statement and that a row holds:
  \<^verbatim>\<open>None\<close>, integers, text and byte strings (floating-point numbers are left out).
\<close>

datatype sqlval = SNull | SInt int | SText string | SBlob string

text \<open>
  A table of a database file: the text of its creation statement (the column \<^verbatim>\<open>sql\<close>
  of \<^verbatim>\<open>sqlite_master\<close>), its columns with their declared types, its primary-key
  column if it has one, and its rows. A row lists one value for each column, in the order
  of the columns.
\<close>

record sqltable =
  tbl_sql :: string
  tbl_columns :: "(string \<times> string) list"
  tbl_primary :: "string option"
  tbl_rows :: "sqlval list list"

text \<open>
  The database behind a connection: its tables by name, and what the engine does at
  the coming statements beyond the relational behaviour that is modelled here (a name or
  a statement that its parser rejects, a locked or unwritable file, an 8-bit byte string
  where text is expected): for each coming statement in turn, the exception it raises,
  or \<open>None\<close> when the statement is executed. An empty list means that every coming
  statement is executed.
\<close>

record database =
  db_tables :: "string \<rightharpoonup> sqltable"
  db_faults :: "error option list"

definition engine_call :: "database \<Rightarrow> error option \<times> database" where
  "engine_call d =
     (case db_faults d of
        [] \<Rightarrow> (None, d)
      | f # fs \<Rightarrow> (f, d\<lparr>db_faults := fs\<rparr>))"

definition header :: "sqltable \<Rightarrow> string list" where
  "header tb = map fst (tbl_columns tb)"

text \<open>The value of a column in a row of a table with the given column names.\<close>

definition cell :: "string list \<Rightarrow> sqlval list \<Rightarrow> string \<Rightarrow> sqlval option" where
  "cell cols row c = map_of (zip cols row) c"

text \<open>
  The engine converts a bound value to the declared type of the column where it can
  (type affinity), and gives a \<^verbatim>\<open>NULL\<close> integer primary key the next row number. The
  conversion is a parameter \<open>stored_as\<close> of the model: the value that is stored in a
  column of a table when the statement binds a given value to it. A comparison of a
  column with a bound value converts the bound value in the same way.
\<close>

type_synonym conversion = "sqltable \<Rightarrow> string \<Rightarrow> sqlval \<Rightarrow> sqlval"


text \<open>
  A new row violates the primary key when its key is not \<^verbatim>\<open>NULL\<close> and a row of the
  table has the same key.
\<close>

definition primary_key_conflict :: "sqltable \<Rightarrow> sqlval list \<Rightarrow> bool" where
  "primary_key_conflict tb row =
     (case tbl_primary tb of
        None \<Rightarrow> False
      | Some k \<Rightarrow>
          (case cell (header tb) row k of
             None \<Rightarrow> False
           | Some v \<Rightarrow> v \<noteq> SNull \<and> (\<exists>r \<in> set (tbl_rows tb). cell (header tb) r k = Some v)))"

text \<open>
  \<^verbatim>\<open>INSERT INTO name(c1, ...) values(?, ...)\<close> with one bound value for each named
  column: \<open>items\<close> pairs every named column with its value. A table or a column that
  does not exist raises \<open>OperationalError\<close>, a violated primary key \<open>IntegrityError\<close>.
  A column that is not named gets \<^verbatim>\<open>NULL\<close>; of a column named twice the first value
  counts. The row is added after the rows that the table has.
\<close>

definition new_row :: "conversion \<Rightarrow> sqltable \<Rightarrow> (string \<times> sqlval) list \<Rightarrow> sqlval list" where
  "new_row stored_as tb items =
     map (\<lambda>c. stored_as tb c (case map_of items c of None \<Rightarrow> SNull | Some v \<Rightarrow> v)) (header tb)"

definition exec_insert ::
  "conversion \<Rightarrow> string \<Rightarrow> (string \<times> sqlval) list \<Rightarrow> database \<Rightarrow> error option \<times> database" where
  "exec_insert stored_as name items d =
     (case engine_call d of
        (Some e, d') \<Rightarrow> (Some e, d')
      | (None, d') \<Rightarrow>
          (case db_tables d' name of
             None \<Rightarrow> (Some OperationalError, d')
           | Some tb \<Rightarrow>
               if \<not> set (map fst items) \<subseteq> set (header tb) then (Some OperationalError, d')
               else if primary_key_conflict tb (new_row stored_as tb items)
               then (Some IntegrityError, d')
               else (None,
                     d'\<lparr>db_tables := (db_tables d')(name \<mapsto>
                          tb\<lparr>tbl_rows := tbl_rows tb @ [new_row stored_as tb items]\<rparr>)\<rparr>)))"

text \<open>The rows that \<^verbatim>\<open>where experiment = ?\<close> selects for a bound identifier.\<close>

definition of_experiment :: "conversion \<Rightarrow> sqltable \<Rightarrow> string \<Rightarrow> sqlval list \<Rightarrow> bool" where
  "of_experiment stored_as tb ident row =
     (cell (header tb) row ''experiment'' = Some (stored_as tb ''experiment'' (SText ident)))"

text \<open>\<^verbatim>\<open>DELETE FROM name WHERE experiment = ?\<close>\<close>

definition exec_delete ::
  "conversion \<Rightarrow> string \<Rightarrow> string \<Rightarrow> database \<Rightarrow> error option \<times> database" where
  "exec_delete stored_as name ident d =
     (case engine_call d of
        (Some e, d') \<Rightarrow> (Some e, d')
      | (None, d') \<Rightarrow>
          (case db_tables d' name of
             None \<Rightarrow> (Some OperationalError, d')
           | Some tb \<Rightarrow>
               if ''experiment'' \<notin> set (header tb) then (Some OperationalError, d')
               else (None,
                     d'\<lparr>db_tables := (db_tables d')(name \<mapsto>
                          tb\<lparr>tbl_rows :=
                               filter (\<lambda>r. \<not> of_experiment stored_as tb ident r) (tbl_rows tb)\<rparr>)\<rparr>)))"


section \<open>\<^verbatim>\<open>Database_SQLite.create_table\<close> and \<^verbatim>\<open>Database_SQLite.values\<close>\<close>






section \<open>\<^verbatim>\<open>Table\<close>\<close>

text \<open>
  A field of a table is declared by a plain string, and is then of type text, or by a
  pair of a name and a type; \<^verbatim>\<open>__field_typify\<close> asserts that anything else is a
  string.
\<close>

datatype field_decl = Plain string | Typed string string | NotAString

fun field_typify :: "field_decl list \<Rightarrow> error + (string \<times> string) list" where
  "field_typify [] = Inr []"
| "field_typify (f # fs) =
     (case f of
        NotAString \<Rightarrow> Inl AssertionError
      | Typed n t \<Rightarrow> (case field_typify fs of Inl e \<Rightarrow> Inl e | Inr r \<Rightarrow> Inr ((n, t) # r))
      | Plain n \<Rightarrow> (case field_typify fs of Inl e \<Rightarrow> Inl e | Inr r \<Rightarrow> Inr ((n, ''text'') # r)))"

text \<open>
  The state of a \<^verbatim>\<open>Table\<close> object. The attributes \<^verbatim>\<open>name\<close>,
  \<^verbatim>\<open>static_experiment\<close> and \<^verbatim>\<open>dynamic_experiment\<close> are supplied by the base class
  \<^verbatim>\<open>Type\<close> and by the experiment that owns the parameter: the static experiment, when
  there is one, with its title and its identifier, and the identifier of the running
  (dynamic) experiment.
\<close>

record table_obj =
  read_only :: bool
  table_index :: "string option"
  table_fields :: "(string \<times> string) list"
  param_name :: string
  static_experiment :: "(string \<times> string) option"
  dynamic_identifier :: string

definition Table_init ::
  "field_decl list \<Rightarrow> string option \<Rightarrow> string \<Rightarrow> (string \<times> string) option \<Rightarrow> string \<Rightarrow>
   error + table_obj" where
  "Table_init flds index name static dynamic =
     (case field_typify (Plain ''experiment'' # flds) of
        Inl e \<Rightarrow> Inl e
      | Inr fs \<Rightarrow>
          Inr \<lparr>read_only = True, table_index = index, table_fields = fs, param_name = name,
               static_experiment = static, dynamic_identifier = dynamic\<rparr>)"

text \<open>
  \<^verbatim>\<open>table_name\<close>: the title of the static experiment, two underscores, and the part
  of the parameter name after its last hyphen (the whole name when it has no hyphen).
\<close>

definition after_last_hyphen :: "string \<Rightarrow> string" where
  "after_last_hyphen s = rev (takeWhile (\<lambda>c. c \<noteq> CHR ''-'') (rev s))"

definition table_name :: "'a table_obj_scheme \<Rightarrow> error + string" where
  "table_name t =
     (case static_experiment t of
        None \<Rightarrow> Inl AssertionError
      | Some (title, ident) \<Rightarrow> Inr (title @ ''__'' @ after_last_hyphen (param_name t)))"

text \<open>
  \<^verbatim>\<open>Table.insert(data, **kwargs)\<close>. The two assertions come before any statement is
  built; \<^verbatim>\<open>data\<close> is \<open>None\<close> when the argument is left out, and an empty dictionary
  counts as left out. The row that is checked and inserted is the keyword arguments,
  updated with \<^verbatim>\<open>data\<close>, with the key \<^verbatim>\<open>experiment\<close> set to the identifier of the
  running experiment.
\<close>

definition insert_row ::
  "'a table_obj_scheme \<Rightarrow> (string \<times> sqlval) list option \<Rightarrow> (string \<times> sqlval) list \<Rightarrow>
   (string \<times> sqlval) list" where
  "insert_row t data kwargs =
     dict_setitem
       (case data of
          None \<Rightarrow> kwargs
        | Some dt \<Rightarrow> if dt = [] then kwargs else dict_update kwargs dt)
       ''experiment'' (SText (dynamic_identifier t))"

definition Table_insert ::
  "conversion \<Rightarrow> 'a table_obj_scheme \<Rightarrow> (string \<times> sqlval) list option \<Rightarrow>
   (string \<times> sqlval) list \<Rightarrow> database \<Rightarrow> error option \<times> database" where
  "Table_insert stored_as t data kwargs d =
     (if read_only t \<noteq> False then (Some AssertionError, d)
      else if set (map fst (insert_row t data kwargs)) \<noteq> set (map fst (table_fields t))
      then (Some AssertionError, d)
      else (case table_name t of
              Inl e \<Rightarrow> (Some e, d)
            | Inr tn \<Rightarrow> exec_insert stored_as tn (insert_row t data kwargs) d))"


text \<open>\<^verbatim>\<open>Table.clear\<close>: the rows of the running experiment are deleted.\<close>

definition Table_clear ::
  "conversion \<Rightarrow> 'a table_obj_scheme \<Rightarrow> database \<Rightarrow> error option \<times> database" where
  "Table_clear stored_as t d =
     (case table_name t of
        Inl e \<Rightarrow> (Some e, d)
      | Inr tn \<Rightarrow> exec_delete stored_as tn (dynamic_identifier t) d)"







section \<open>\<^verbatim>\<open>TableDict\<close>\<close>

text \<open>
  A \<^verbatim>\<open>TableDict\<close> is a \<^verbatim>\<open>Table\<close> with the columns \<^verbatim>\<open>key\<close> and \<^verbatim>\<open>value\<close>, both
  text, with \<^verbatim>\<open>key\<close> as its index, and it is a dictionary: \<open>contents\<close> are its items.
\<close>

record tabledict = table_obj +
  contents :: "(sqlval \<times> sqlval) list"

definition TableDict_init :: "string \<Rightarrow> (string \<times> string) option \<Rightarrow> string \<Rightarrow> tabledict" where
  "TableDict_init name static dynamic =
     \<lparr>read_only = True, table_index = Some ''key'',
      table_fields = [(''experiment'', ''text''), (''key'', ''text''), (''value'', ''text'')],
      param_name = name, static_experiment = static, dynamic_identifier = dynamic,
      contents = []\<rparr>"

text \<open>\<^verbatim>\<open>TableDict.insert(*args, **kwargs)\<close> raises, whatever the arguments.\<close>

definition TableDict_insert ::
  "tabledict \<Rightarrow> 'args \<Rightarrow> 'kwargs \<Rightarrow> database \<Rightarrow> error option \<times> database" where
  "TableDict_insert td args kwargs d = (Some NotImplementedError, d)"

text \<open>
  \<^verbatim>\<open>TableDict\<close> lists \<^verbatim>\<open>Table\<close> before \<^verbatim>\<open>dict\<close> among its bases and does not define
  \<^verbatim>\<open>clear\<close>, so \<^verbatim>\<open>clear()\<close> on a \<^verbatim>\<open>TableDict\<close> is \<^verbatim>\<open>Table.clear\<close>.
\<close>

definition TableDict_clear ::
  "conversion \<Rightarrow> tabledict \<Rightarrow> database \<Rightarrow> error option \<times> database" where
  "TableDict_clear stored_as td d = Table_clear stored_as td d"










section \<open>Parameter lifecycle: \<^verbatim>\<open>Experiment.execute\<close>\<close>
















section \<open>Merge reconciler: \<^verbatim>\<open>Database_SQlite_Merger\<close>\<close>

text \<open>
  A source database that is attached to the connection of the target: its tables, as
  the rows of type table of its \<^verbatim>\<open>sqlite_master\<close> list them (name and table), and
  whether the engine can write to its file (a store that a run has torn down is left
  read-only by \<^verbatim>\<open>Database_SQLite.after_experiment_run\<close>).
\<close>

record source =
  src_tables :: "(string \<times> sqltable) list"
  src_writable :: bool

text \<open>
  The state of a merger: the tables of the target (the main database of the
  connection), the attached sources with their aliases in the order in which they were
  attached, the aliases in the order in which the dictionary \<^verbatim>\<open>self.source_paths\<close>
  lists them, the dictionary \<^verbatim>\<open>self.tables\<close> (for a name, the first table found of
  that name and the aliases of the sources that have it), the lines printed, what the
  engine does at the coming statements beyond the modelled behaviour (as for a
  \<open>database\<close>), whether the name \<^verbatim>\<open>sys\<close> is bound (it is imported only when the
  module runs as the merge tool), and the result of Python's operator \<^verbatim>\<open>%\<close> with no
  arguments on a text that has a percent sign, which is not modelled further.
\<close>

record merger =
  m_main :: "string \<rightharpoonup> sqltable"
  m_attached :: "(string \<times> source) list"
  m_source_paths :: "string list"
  m_tables :: "(string \<times> sqltable \<times> string list) list"
  m_log :: "string list"
  m_faults :: "error option list"
  m_sys :: bool
  m_percent :: "string \<Rightarrow> error + string"

definition merger_call :: "merger \<Rightarrow> error option \<times> merger" where
  "merger_call m =
     (case m_faults m of
        [] \<Rightarrow> (None, m)
      | f # fs \<Rightarrow> (f, m\<lparr>m_faults := fs\<rparr>))"

text \<open>
  \<^verbatim>\<open>log(msg)\<close> with no further argument prints \<^verbatim>\<open>"merger: " + (msg % ())\<close>: a
  message without a percent sign is printed as it is.
\<close>

definition log_plain :: "string \<Rightarrow> merger \<Rightarrow> error option \<times> merger" where
  "log_plain msg m =
     (if CHR ''%'' \<in> set msg
      then (case m_percent m msg of
              Inl e \<Rightarrow> (Some e, m)
            | Inr s \<Rightarrow> (None, m\<lparr>m_log := m_log m @ [''merger: '' @ s]\<rparr>))
      else (None, m\<lparr>m_log := m_log m @ [''merger: '' @ msg]\<rparr>))"

definition log_line :: "string \<Rightarrow> merger \<Rightarrow> merger" where
  "log_line s m = m\<lparr>m_log := m_log m @ [''merger: '' @ s]\<rparr>"

text \<open>
  The inner loop of \<^verbatim>\<open>collect_and_create_tables\<close> over the tables of one source: a
  name that is new is entered with its table and the alias; a name that is known gets
  the alias added when the creation statements agree, and otherwise the conflict is
  logged and \<^verbatim>\<open>sys.exit(-1)\<close> is called.
\<close>

fun register_tables :: "string \<Rightarrow> (string \<times> sqltable) list \<Rightarrow> merger \<Rightarrow> error option \<times> merger" where
  "register_tables db [] m = (None, m)"
| "register_tables db ((name, table) # rest) m =
     (case map_of (m_tables m) name of
        Some (first, databases) \<Rightarrow>
          if tbl_sql first \<noteq> tbl_sql table
          then (case log_plain (''Two tables with different defintions found: '' @ name) m of
                  (Some e, m') \<Rightarrow> (Some e, m')
                | (None, m') \<Rightarrow> (Some (if m_sys m' then SystemExit (- 1) else NameError), m'))
          else register_tables db rest
                 (m\<lparr>m_tables := dict_setitem (m_tables m) name (first, databases @ [db])\<rparr>)
      | None \<Rightarrow>
          register_tables db rest
            (m\<lparr>m_tables := dict_setitem (m_tables m) name (table, [db])\<rparr>))"

text \<open>
  The outer loop: for every alias the tables of the source are read from its
  \<^verbatim>\<open>sqlite_master\<close> and registered.
\<close>

fun scan_sources :: "string list \<Rightarrow> merger \<Rightarrow> error option \<times> merger" where
  "scan_sources [] m = (None, m)"
| "scan_sources (db # dbs) m =
     (case merger_call m of
        (Some e, m') \<Rightarrow> (Some e, m')
      | (None, m') \<Rightarrow>
          (case map_of (m_attached m') db of
             None \<Rightarrow> (Some OperationalError, m')
           | Some src \<Rightarrow>
               (case register_tables db (src_tables src) m' of
                  (Some e, m'') \<Rightarrow> (Some e, m'')
                | (None, m'') \<Rightarrow> scan_sources dbs m'')))"

text \<open>
  \<^verbatim>\<open>DROP TABLE name\<close> inside \<^verbatim>\<open>try\<close> with a bare \<^verbatim>\<open>except: pass\<close>. The name is
  not qualified: the engine takes the table of the target when the target has one of
  that name, and otherwise the table of the first attached source that has one, which it
  drops when it can write to that source. Whatever is raised is ignored.
\<close>

fun drop_attached :: "string \<Rightarrow> (string \<times> source) list \<Rightarrow> (string \<times> source) list" where
  "drop_attached name [] = []"
| "drop_attached name ((alias, src) # rest) =
     (if name \<in> set (map fst (src_tables src))
      then (if src_writable src
            then (alias, src\<lparr>src_tables := filter (\<lambda>t. fst t \<noteq> name) (src_tables src)\<rparr>) # rest
            else (alias, src) # rest)
      else (alias, src) # drop_attached name rest)"

definition drop_table :: "string \<Rightarrow> merger \<Rightarrow> merger" where
  "drop_table name m =
     (case merger_call m of
        (Some e, m') \<Rightarrow> m'
      | (None, m') \<Rightarrow>
          if m_main m' name \<noteq> None then m'\<lparr>m_main := (m_main m')(name := None)\<rparr>
          else m'\<lparr>m_attached := drop_attached name (m_attached m')\<rparr>)"

text \<open>
  The creation statement of a source table is executed on the connection: it makes, in
  the target, an empty table with the declaration of the source table, and is refused
  when the target has a table of that name.
\<close>

definition create_from :: "string \<Rightarrow> sqltable \<Rightarrow> merger \<Rightarrow> error option \<times> merger" where
  "create_from name table m =
     (case merger_call m of
        (Some e, m') \<Rightarrow> (Some e, m')
      | (None, m') \<Rightarrow>
          if m_main m' name \<noteq> None then (Some OperationalError, m')
          else (None, m'\<lparr>m_main := (m_main m')(name \<mapsto> table\<lparr>tbl_rows := []\<rparr>)\<rparr>))"

fun create_tables :: "(string \<times> sqltable \<times> string list) list \<Rightarrow> merger \<Rightarrow> error option \<times> merger" where
  "create_tables [] m = (None, m)"
| "create_tables ((name, table, databases) # rest) m =
     (case create_from name table (drop_table name m) of
        (Some e, m') \<Rightarrow> (Some e, m')
      | (None, m') \<Rightarrow> create_tables rest (log_line (''created table '' @ name) m'))"

definition collect_and_create_tables :: "merger \<Rightarrow> error option \<times> merger" where
  "collect_and_create_tables m =
     (case scan_sources (m_source_paths m) (m\<lparr>m_tables := []\<rparr>) of
        (Some e, m') \<Rightarrow> (Some e, m')
      | (None, m') \<Rightarrow> create_tables (m_tables m') m')"

text \<open>Two of the listed sources declare a table of this name with different statements.\<close>

definition conflicting :: "merger \<Rightarrow> string \<Rightarrow> bool" where
  "conflicting m name =
     (\<exists>a \<in> set (m_source_paths m). \<exists>b \<in> set (m_source_paths m).
        \<exists>sa sb ta tb. map_of (m_attached m) a = Some sa \<and> map_of (m_attached m) b = Some sb \<and>
          (name, ta) \<in> set (src_tables sa) \<and> (name, tb) \<in> set (src_tables sb) \<and>
          tbl_sql ta \<noteq> tbl_sql tb)"

text \<open>
  The invariant of the scan: every table of the sources scanned so far has an entry
  under its name whose creation statement is its own, and every entry is the table of
  a source that has been scanned.
\<close>

definition registered :: "merger \<Rightarrow> string \<Rightarrow> sqltable \<Rightarrow> bool" where
  "registered m name table =
     (\<exists>first databases. map_of (m_tables m) name = Some (first, databases) \<and>
        tbl_sql first = tbl_sql table)"

section \<open>Properties of the identity hasher\<close>

lemma md5_update_all_render:
  "set keys \<subseteq> dom (map_of metadata) \<Longrightarrow>
   md5_update_all keys metadata m = Inr (m @ render (\<lambda>k. the (map_of metadata k)) keys)"
proof (induction keys arbitrary: m)
  case Nil
  then show ?case by (simp add: render_def)
next
  case (Cons key keys)
  from Cons.prems obtain v where v: "map_of metadata key = Some v" by auto
  from Cons.prems have "set keys \<subseteq> dom (map_of metadata)" by simp
  from Cons.IH [OF this] v show ?case by (simp add: render_def)
qed

lemma digest_input_render:
  "digest_input version metadata =
   Inr ((''version '' @ format_d version) @
        render (\<lambda>k. the (map_of metadata k)) (sort (map fst metadata)))"
  unfolding digest_input_def
  by (rule md5_update_all_render) (simp add: dom_map_of_conv_image_fst)

lemma sorted_keys_unique:
  assumes "distinct (map fst M1)" "distinct (map fst M2)" "fst ` set M1 = fst ` set M2"
  shows "sort (map fst M1) = sort (map fst M2)"
proof (rule sorted_distinct_set_unique)
  show "distinct (sort (map fst M1))" using assms(1) by simp
  show "distinct (sort (map fst M2))" using assms(2) by simp
  show "set (sort (map fst M1)) = set (sort (map fst M2))" using assms(3) by simp
qed simp_all

text \<open>
  Claim C1. Two metadata dictionaries with the same items, whatever the order in which
  the items were inserted, and the same version number give the same experiment-instance
  identifier: the title, a hyphen and the digest of the text \<open>version N\<close> followed by
  every \<open>key value\<close> in sorted key order.
\<close>

theorem identifier_insertion_order_independent:
  assumes "distinct (map fst M1)" and "distinct (map fst M2)" and "set M1 = set M2"
  shows "experiment_instance hexdigest title version M1 =
           experiment_instance hexdigest title version M2 \<and>
         experiment_instance hexdigest title version M1 =
           Inr (title @ ''-'' @ hexdigest ((''version '' @ format_d version) @
                  render (\<lambda>k. the (map_of M1 k)) (sort (map fst M1))))"
proof -
  have m: "map_of M1 = map_of M2"
    using assms by (simp add: map_of_inject_set)
  have "fst ` set M1 = fst ` set M2" using assms(3) by simp
  then have k: "sort (map fst M1) = sort (map fst M2)"
    using assms(1,2) by (rule sorted_keys_unique [rotated 2])
  show ?thesis
    by (simp add: experiment_instance_def digest_input_render m k)
qed

theorem identifier_insertion_order_independent_witness:
  "experiment_instance (\<lambda>m. m) ''T'' 1 [(''a'', ''1''), (''b'', ''2'')] =
     experiment_instance (\<lambda>m. m) ''T'' 1 [(''b'', ''2''), (''a'', ''1'')] \<and>
   experiment_instance (\<lambda>m. m) ''T'' 1 [(''a'', ''1''), (''b'', ''2'')] =
     Inr ''T-version 1a 1b 2''"
proof -
  have f: "format_d 1 = ''1''"
    by (simp add: format_d_def str_nat.simps digit_char_def)
  have "sort (map fst [(''a'', ''1''), (''b'', ''2'')]) = [''a'', ''b'']"
    by simp
  with identifier_insertion_order_independent
    [of "[(''a'', ''1''), (''b'', ''2'')]" "[(''b'', ''2''), (''a'', ''1'')]" "\<lambda>m. m" "''T''" 1]
  show ?thesis
    by (simp add: f render_def experiment_instance_def digest_input_def)
qed

lemma takeWhile_render:
  "takeWhile (\<lambda>c. c \<noteq> CHR '' '') (render f keys) = takeWhile (\<lambda>c. c \<noteq> CHR '' '') (render g keys)"
  by (cases keys) (simp_all add: render_def takeWhile_tail)

lemma render_values_injective:
  assumes "\<forall>k \<in> set keys. CHR '' '' \<notin> set (f k) \<and> CHR '' '' \<notin> set (g k)"
    and "render f keys = render g keys"
  shows "\<forall>k \<in> set keys. f k = g k"
  using assms
proof (induction keys)
  case Nil
  then show ?case by simp
next
  case (Cons key keys)
  let ?P = "\<lambda>c. c \<noteq> CHR '' ''"
  from Cons.prems(2) have eq: "f key @ render f keys = g key @ render g keys"
    by (simp add: render_def)
  from Cons.prems(1) have nf: "\<And>c. c \<in> set (f key) \<Longrightarrow> ?P c"
    and ng: "\<And>c. c \<in> set (g key) \<Longrightarrow> ?P c" by auto
  have "takeWhile ?P (f key @ render f keys) = f key @ takeWhile ?P (render f keys)"
    using nf by (rule takeWhile_append2)
  moreover have "takeWhile ?P (g key @ render g keys) = g key @ takeWhile ?P (render g keys)"
    using ng by (rule takeWhile_append2)
  ultimately have "f key @ takeWhile ?P (render f keys) = g key @ takeWhile ?P (render f keys)"
    using eq takeWhile_render [of f keys g] by simp
  then have v: "f key = g key" by simp
  with eq have "render f keys = render g keys" by simp
  with Cons.IH Cons.prems(1) v show ?case by simp
qed

text \<open>
  Claim C2 (as amended). The items are appended to the digest input without a separator
  between one item and the next, so two different dictionaries can give the same input
  and hence the same identifier. What holds: two dictionaries over the same key set,
  whose values contain no space character and that differ in at least one value, give
  different digest inputs, and their identifiers differ whenever the digest function
  does not collide on these two inputs.
\<close>

theorem identifier_distinguishes_values:
  assumes "distinct (map fst M1)" and "distinct (map fst M2)"
    and "fst ` set M1 = fst ` set M2"
    and "\<forall>v \<in> snd ` set M1 \<union> snd ` set M2. CHR '' '' \<notin> set v"
    and "set M1 \<noteq> set M2"
  shows "\<exists>m1 m2. digest_input version M1 = Inr m1 \<and> digest_input version M2 = Inr m2 \<and>
           m1 \<noteq> m2 \<and>
           (hexdigest m1 \<noteq> hexdigest m2 \<longrightarrow>
            experiment_instance hexdigest title version M1 \<noteq>
              experiment_instance hexdigest title version M2)"
proof -
  let ?f = "\<lambda>k. the (map_of M1 k)" and ?g = "\<lambda>k. the (map_of M2 k)"
  let ?keys = "sort (map fst M1)"
  let ?v = "''version '' @ format_d version"
  have k: "sort (map fst M2) = ?keys"
    using assms(2,1) assms(3) [symmetric] by (rule sorted_keys_unique)
  have d1: "digest_input version M1 = Inr (?v @ render ?f ?keys)"
    by (rule digest_input_render)
  have d2: "digest_input version M2 = Inr (?v @ render ?g ?keys)"
    using digest_input_render [of version M2] k by simp
  have ne: "render ?f ?keys \<noteq> render ?g ?keys"
  proof
    assume eq: "render ?f ?keys = render ?g ?keys"
    have sp: "\<forall>k \<in> set ?keys. CHR '' '' \<notin> set (?f k) \<and> CHR '' '' \<notin> set (?g k)"
    proof
      fix k assume "k \<in> set ?keys"
      then have k1: "k \<in> fst ` set M1" and k2: "k \<in> fst ` set M2"
        using assms(3) by auto
      from k1 obtain v1 where v1: "map_of M1 k = Some v1"
        by (metis domD dom_map_of_conv_image_fst)
      from k2 obtain v2 where v2: "map_of M2 k = Some v2"
        by (metis domD dom_map_of_conv_image_fst)
      from v1 have "v1 \<in> snd ` set M1" by (metis map_of_SomeD snd_conv image_eqI)
      moreover from v2 have "v2 \<in> snd ` set M2" by (metis map_of_SomeD snd_conv image_eqI)
      ultimately show "CHR '' '' \<notin> set (?f k) \<and> CHR '' '' \<notin> set (?g k)"
        using assms(4) v1 v2 by auto
    qed
    from render_values_injective [OF sp eq]
    have vals: "\<forall>k \<in> fst ` set M1. ?f k = ?g k" by simp
    have "map_of M1 = map_of M2"
    proof (rule map_of_eqI)
      show "set (map fst M1) = set (map fst M2)" using assms(3) by simp
      show "\<forall>k \<in> set (map fst M1). map_of M1 k = map_of M2 k"
      proof
        fix k assume "k \<in> set (map fst M1)"
        then have k1: "k \<in> fst ` set M1" and k2: "k \<in> fst ` set M2"
          using assms(3) by auto
        from k1 obtain v1 where v1: "map_of M1 k = Some v1"
          by (metis domD dom_map_of_conv_image_fst)
        from k2 obtain v2 where v2: "map_of M2 k = Some v2"
          by (metis domD dom_map_of_conv_image_fst)
        from vals k1 v1 v2 show "map_of M1 k = map_of M2 k" by auto
      qed
    qed
    then have "set M1 = set M2"
      using assms(1,2) by (simp add: map_of_inject_set)
    with assms(5) show False by simp
  qed
  show ?thesis
    using d1 d2 ne by (simp add: experiment_instance_def)
qed



lemma differing_inputs_elim:
  "\<exists>m1 m2. P m1 \<and> Q m2 \<and> m1 \<noteq> m2 \<and> (m1 \<noteq> m2 \<longrightarrow> R) \<Longrightarrow> R"
  by blast

theorem identifier_distinguishes_values_witness:
  "experiment_instance (\<lambda>m. m) ''T'' 1 [(''a'', ''1''), (''b'', ''2'')] \<noteq>
     experiment_instance (\<lambda>m. m) ''T'' 1 [(''b'', ''3''), (''a'', ''1'')]"
proof -
  let ?M1 = "[(''a'', ''1''), (''b'', ''2'')]" and ?M2 = "[(''b'', ''3''), (''a'', ''1'')]"
  have ne: "set ?M1 \<noteq> set ?M2"
  proof
    assume "set ?M1 = set ?M2"
    then have "(''b'', ''2'') \<in> set ?M2" by (metis list.set_intros)
    then show False by simp
  qed
  have d1: "distinct (map fst ?M1)" and d2: "distinct (map fst ?M2)" by simp_all
  have ks: "fst ` set ?M1 = fst ` set ?M2" by (simp add: insert_commute)
  have sp: "\<forall>v \<in> snd ` set ?M1 \<union> snd ` set ?M2. CHR '' '' \<notin> set v" by simp
  from identifier_distinguishes_values [OF d1 d2 ks sp ne, of 1 "\<lambda>m. m" "''T''"]
  show ?thesis by (rule differing_inputs_elim)
qed

text \<open>
  Two dictionaries that differ in a key (no space anywhere), and two dictionaries over
  the same keys that differ in their values, with the same digest input: the identifiers
  agree whatever the digest function is (here the identity, which never collides).
\<close>

theorem identifier_collision_counterexample:
  "map_of [(''a'', ''x''), (''b'', ''2'')] ''a'' \<noteq> map_of [(''a'', ''''), (''xb'', ''2'')] ''a'' \<and>
   digest_input 1 [(''a'', ''x''), (''b'', ''2'')] = digest_input 1 [(''a'', ''''), (''xb'', ''2'')] \<and>
   experiment_instance (\<lambda>m. m) ''T'' 1 [(''a'', ''x''), (''b'', ''2'')] =
     experiment_instance (\<lambda>m. m) ''T'' 1 [(''a'', ''''), (''xb'', ''2'')] \<and>
   map_of [(''a'', ''x''), (''b'', ''yb z'')] ''a'' \<noteq> map_of [(''a'', ''xb y''), (''b'', ''z'')] ''a'' \<and>
   digest_input 1 [(''a'', ''x''), (''b'', ''yb z'')] =
     digest_input 1 [(''a'', ''xb y''), (''b'', ''z'')] \<and>
   experiment_instance (\<lambda>m. m) ''T'' 1 [(''a'', ''x''), (''b'', ''yb z'')] =
     experiment_instance (\<lambda>m. m) ''T'' 1 [(''a'', ''xb y''), (''b'', ''z'')]"
proof -
  have k1: "sort [''a'', ''xb''] = [''a'', ''xb'']" by simp
  have k2: "sort [''a'', ''b''] = [''a'', ''b'']" by simp
  have d1: "digest_input 1 [(''a'', ''x''), (''b'', ''2'')] = digest_input 1 [(''a'', ''''), (''xb'', ''2'')]"
    by (simp add: digest_input_def k1 k2)
  have d2: "digest_input 1 [(''a'', ''x''), (''b'', ''yb z'')] =
     digest_input 1 [(''a'', ''xb y''), (''b'', ''z'')]"
    by (simp add: digest_input_def k1 k2)
  show ?thesis
    using d1 d2 by (simp add: experiment_instance_def)
qed
section \<open>Properties of the connection registry\<close>

lemma run_calls_snoc: "run_calls (cs @ [c]) s = call_step (run_calls cs s) c"
  by (simp add: run_calls_def)

lemma never_overdrawn_snoc:
  "never_overdrawn p (cs @ [c]) \<Longrightarrow>
   never_overdrawn p cs \<and> disconnects p (cs @ [c]) \<le> connects p (cs @ [c])"
  by (auto simp add: never_overdrawn_def)

lemma never_overdrawn_le: "never_overdrawn p cs \<Longrightarrow> disconnects p cs \<le> connects p cs"
  by (simp add: never_overdrawn_def)

lemma upt_pred_snoc: "a < b \<Longrightarrow> [a..<b - Suc 0] @ [b - Suc 0] = [a..<b]"
  by (cases b) simp_all

lemma never_overdrawn_prefix:
  "never_overdrawn p cs \<Longrightarrow> prefix pre cs \<Longrightarrow> never_overdrawn p pre"
proof -
  assume a: "never_overdrawn p cs" and b: "prefix pre cs"
  show "never_overdrawn p pre"
    unfolding never_overdrawn_def in_set_prefixes
  proof (intro ballI)
    fix q assume "q \<in> set (prefixes pre)"
    then have "prefix q pre" by (simp add: in_set_prefixes)
    then have "prefix q cs" using b by (rule prefix_order.order_trans)
    with a show "disconnects p q \<le> connects p q"
      by (simp add: never_overdrawn_def in_set_prefixes)
  qed
qed

lemma positive_countD:
  "positive_count s path \<Longrightarrow> database_connections s path = Some (db, count) \<Longrightarrow> 1 \<le> count"
  unfolding positive_count_def by blast

lemma positive_countI:
  "(\<And>db count. database_connections s path = Some (db, count) \<Longrightarrow> 1 \<le> count)
   \<Longrightarrow> positive_count s path"
  unfolding positive_count_def by blast

lemma positive_count_connect:
  assumes "positive_count s q"
  shows "positive_count (snd (connect l p s)) q"
proof (cases "database_connections s p")
  case None
  show ?thesis
  proof (cases "connect_raises l")
    case (Some e)
    with None assms show ?thesis by (simp add: connect_def)
  next
    case n: None
    show ?thesis
    proof (rule positive_countI)
      fix db count
      assume "database_connections (snd (connect l p s)) q = Some (db, count)"
      with None n have "count = 1 \<or> database_connections s q = Some (db, count)"
        by (simp add: connect_def Let_def split: if_splits)
      with assms show "1 \<le> count" by (auto dest: positive_countD)
    qed
  qed
next
  case (Some e)
  obtain h n where e: "e = (h, n)" by (cases e)
  show ?thesis
  proof (rule positive_countI)
    fix db count
    assume "database_connections (snd (connect l p s)) q = Some (db, count)"
    with Some e
    have "(q = p \<and> count = n + 1) \<or> database_connections s q = Some (db, count)"
      by (simp add: connect_def split: if_splits)
    then show "1 \<le> count"
    proof
      assume a: "q = p \<and> count = n + 1"
      with assms Some e have "1 \<le> n" by (auto dest: positive_countD)
      with a show ?thesis by simp
    next
      assume "database_connections s q = Some (db, count)"
      with assms show ?thesis by (rule positive_countD)
    qed
  qed
qed

lemma positive_count_disconnect:
  assumes "positive_count s q"
  shows "positive_count (snd (disconnect l p s)) q"
proof (cases "database_connections s p")
  case None
  with assms show ?thesis by (simp add: disconnect_def)
next
  case (Some e)
  obtain h n where e: "e = (h, n)" by (cases e)
  show ?thesis
  proof (rule positive_countI)
    fix db count
    assume "database_connections (snd (disconnect l p s)) q = Some (db, count)"
    with Some e
    have "(q = p \<and> count = n - 1 \<and> n \<noteq> 1) \<or> database_connections s q = Some (db, count)"
      by (simp add: disconnect_def Let_def split: if_splits option.splits)
    then show "1 \<le> count"
    proof
      assume a: "q = p \<and> count = n - 1 \<and> n \<noteq> 1"
      with assms Some e have "1 \<le> n" by (auto dest: positive_countD)
      with a show ?thesis by simp
    next
      assume "database_connections s q = Some (db, count)"
      with assms show ?thesis by (rule positive_countD)
    qed
  qed
qed

lemma positive_count_step:
  assumes "positive_count (snd r) q"
  shows "positive_count (snd (call_step r c)) q"
proof -
  obtain e s where r: "r = (e, s)" by (cases r)
  show ?thesis
  proof (cases e)
    case (Some x)
    with assms r show ?thesis by (simp add: call_step_def)
  next
    case None
    show ?thesis
    proof (cases "fst c")
      case (Connect path)
      from assms r have p: "positive_count (snd (connect (snd c) path s)) q"
        by (simp add: positive_count_connect)
      obtain x s' where x: "connect (snd c) path s = (x, s')" by (cases "connect (snd c) path s")
      with p have "positive_count s' q" by simp
      with None r Connect x show ?thesis
        by (cases x) (simp_all add: call_step_def)
    next
      case (Disconnect path)
      from assms r have "positive_count (snd (disconnect (snd c) path s)) q"
        by (simp add: positive_count_disconnect)
      with None r Disconnect show ?thesis
        by (simp add: call_step_def)
    qed
  qed
qed

lemma positive_count_run: "positive_count s q \<Longrightarrow> positive_count (snd (run_calls cs s)) q"
  by (induction cs rule: rev_induct) (simp_all add: run_calls_def positive_count_step)

lemma positive_count_refcount:
  assumes "positive_count s p"
  shows "0 \<le> refcount s p"
proof (cases "database_connections s p")
  case None
  then show ?thesis by (simp add: refcount_def)
next
  case (Some e)
  obtain h n where e: "e = (h, n)" by (cases e)
  from assms Some e have "1 \<le> n" by (auto dest: positive_countD)
  with Some e show ?thesis by (simp add: refcount_def)
qed

lemma registry_inv_run:
  assumes "database_connections s0 p = None"
    and "\<forall>c \<in> set cs. (fst c = Connect p \<or> fst c = Disconnect p) \<and> no_failure (snd c)"
    and "never_overdrawn p (map fst cs)"
  shows "\<exists>s. run_calls cs s0 = (None, s) \<and> registry_inv s0 p (map fst cs) s"
  using assms(2,3)
proof (induction cs rule: rev_induct)
  case Nil
  show ?case using assms(1)
    by (simp add: run_calls_def registry_inv_def connects_def disconnects_def)
next
  case (snoc c cs)
  from snoc.prems(2) have no: "never_overdrawn p (map fst cs)"
    and le: "disconnects p (map fst cs @ [fst c]) \<le> connects p (map fst cs @ [fst c])"
    by (auto dest: never_overdrawn_snoc)
  from snoc.prems(1)
  have "\<forall>c \<in> set cs. (fst c = Connect p \<or> fst c = Disconnect p) \<and> no_failure (snd c)"
    by simp
  from snoc.IH [OF this no] obtain s where
    run: "run_calls cs s0 = (None, s)" and inv: "registry_inv s0 p (map fst cs) s" by blast
  from snoc.prems(1) have ok: "no_failure (snd c)" by simp
  from snoc.prems(1) have "fst c = Connect p \<or> fst c = Disconnect p" by simp
  then show ?case
  proof
    assume c: "fst c = Connect p"
    show ?thesis
    proof (cases "connects p (map fst cs) = disconnects p (map fst cs)")
      case True
      with inv c run ok show ?thesis
        by (simp add: run_calls_snoc call_step_def connect_def registry_inv_def
            connects_def disconnects_def Let_def no_failure_def)
    next
      case False
      with inv c run never_overdrawn_le [OF no] show ?thesis
        by (auto simp add: run_calls_snoc call_step_def connect_def registry_inv_def
            connects_def disconnects_def Let_def)
    qed
  next
    assume c: "fst c = Disconnect p"
    with le have lt: "disconnects p (map fst cs) < connects p (map fst cs)"
      by (simp add: connects_def disconnects_def)
    show ?thesis
    proof (cases "connects p (map fst cs) = Suc (disconnects p (map fst cs))")
      case True
      with inv c run lt ok show ?thesis
        by (simp add: run_calls_snoc call_step_def disconnect_def registry_inv_def
            connects_def disconnects_def Let_def upt_pred_snoc no_failure_def)
    next
      case False
      with inv c run lt ok show ?thesis
        by (simp add: run_calls_snoc call_step_def disconnect_def registry_inv_def
            connects_def disconnects_def Let_def no_failure_def)
    qed
  qed
qed

text \<open>
  Claim C3 (as amended). For a path \<open>p\<close> with no entry yet and every sequence of
  connects and disconnects of \<open>p\<close> that never disconnects more than it has connected:
  a connect made while \<open>p\<close> has an entry returns the handle of that entry and adds one
  to its use count; a connect made while \<open>p\<close> has no entry (the first one, or one that
  follows a disconnect that took the count to zero) opens a new handle with count one,
  when the library opens the path; the use count is never negative at any intermediate
  point, whether or not a call raises; and as long as no library call raises, after
  every prefix the use count is the number of connects minus the number of disconnects,
  the entry is absent exactly when the two numbers agree, and whenever they agree (in
  particular after the final disconnect of N connects and N disconnects) every handle
  opened so far has been closed exactly once.
\<close>

theorem refcount_lifecycle:
  assumes "database_connections s0 p = None"
    and "\<forall>c \<in> set cs. fst c = Connect p \<or> fst c = Disconnect p"
    and "never_overdrawn p (map fst cs)"
  shows "(\<forall>l (s :: registry) h n. database_connections s p = Some (h, n) \<longrightarrow>
            connect l p s =
              (Inr h, s\<lparr>database_connections := (database_connections s)(p \<mapsto> (h, n + 1))\<rparr>)) \<and>
         (\<forall>l (s :: registry). database_connections s p = None \<and> connect_raises l = None \<longrightarrow>
            connect l p s =
              (Inr (next_handle s),
               s\<lparr>next_handle := Suc (next_handle s),
                 database_connections := (database_connections s)(p \<mapsto> (next_handle s, 1))\<rparr>)) \<and>
         (\<forall>pre \<in> set (prefixes cs). 0 \<le> refcount (snd (run_calls pre s0)) p) \<and>
         (\<forall>pre \<in> set (prefixes cs). (\<forall>c \<in> set pre. no_failure (snd c)) \<longrightarrow> (\<exists>s.
            run_calls pre s0 = (None, s) \<and>
            refcount s p = int (connects p (map fst pre)) - int (disconnects p (map fst pre)) \<and>
            (database_connections s p = None \<longleftrightarrow>
               connects p (map fst pre) = disconnects p (map fst pre)) \<and>
            (connects p (map fst pre) = disconnects p (map fst pre) \<longrightarrow>
               closed s = closed s0 @ [next_handle s0 ..< next_handle s])))"
proof (intro conjI allI impI ballI)
  fix l :: library and s :: registry and h n assume "database_connections s p = Some (h, n)"
  then show "connect l p s =
      (Inr h, s\<lparr>database_connections := (database_connections s)(p \<mapsto> (h, n + 1))\<rparr>)"
    by (simp add: connect_def)
next
  fix l :: library and s :: registry
  assume "database_connections s p = None \<and> connect_raises l = None"
  then show "connect l p s =
      (Inr (next_handle s),
       s\<lparr>next_handle := Suc (next_handle s),
         database_connections := (database_connections s)(p \<mapsto> (next_handle s, 1))\<rparr>)"
    by (simp add: connect_def Let_def)
next
  fix pre assume "pre \<in> set (prefixes cs)"
  from assms(1) have "positive_count s0 p" by (simp add: positive_count_def)
  then have "positive_count (snd (run_calls pre s0)) p" by (rule positive_count_run)
  then show "0 \<le> refcount (snd (run_calls pre s0)) p" by (rule positive_count_refcount)
next
  fix pre assume "pre \<in> set (prefixes cs)" and ok: "\<forall>c \<in> set pre. no_failure (snd c)"
  then have pre: "prefix pre cs" by (simp add: in_set_prefixes)
  then have "set pre \<subseteq> set cs" by (rule set_mono_prefix)
  with assms(2) ok
  have on_p: "\<forall>c \<in> set pre. (fst c = Connect p \<or> fst c = Disconnect p) \<and> no_failure (snd c)"
    by blast
  from pre have "prefix (map fst pre) (map fst cs)" by (rule map_mono_prefix)
  with assms(3) have no: "never_overdrawn p (map fst pre)" by (rule never_overdrawn_prefix)
  from registry_inv_run [OF assms(1) on_p no] obtain s where
    run: "run_calls pre s0 = (None, s)" and inv: "registry_inv s0 p (map fst pre) s" by blast
  have r1: "refcount s p = int (connects p (map fst pre)) - int (disconnects p (map fst pre))"
    using inv by (simp add: registry_inv_def refcount_def split: if_splits)
  have r3: "database_connections s p = None \<longleftrightarrow>
      connects p (map fst pre) = disconnects p (map fst pre)"
    using inv by (simp add: registry_inv_def split: if_splits)
  have r4: "connects p (map fst pre) = disconnects p (map fst pre) \<longrightarrow>
      closed s = closed s0 @ [next_handle s0 ..< next_handle s]"
    using inv by (simp add: registry_inv_def)
  show "\<exists>s. run_calls pre s0 = (None, s) \<and>
            refcount s p = int (connects p (map fst pre)) - int (disconnects p (map fst pre)) \<and>
            (database_connections s p = None \<longleftrightarrow>
               connects p (map fst pre) = disconnects p (map fst pre)) \<and>
            (connects p (map fst pre) = disconnects p (map fst pre) \<longrightarrow>
               closed s = closed s0 @ [next_handle s0 ..< next_handle s])"
    by (intro exI [of _ s] conjI run r1 r3 r4)
qed

theorem refcount_lifecycle_witness:
  "never_overdrawn ''x.db''
     [Connect ''x.db'', Connect ''x.db'', Disconnect ''x.db'', Disconnect ''x.db''] \<and>
   (\<exists>s. run_calls [(Connect ''x.db'', reliable), (Connect ''x.db'', reliable),
                    (Disconnect ''x.db'', reliable), (Disconnect ''x.db'', reliable)]
          initial_registry = (None, s) \<and>
        refcount s ''x.db'' = 0 \<and> database_connections s ''x.db'' = None \<and> closed s = [0]) \<and>
   refcount (snd (run_calls [(Connect ''x.db'', reliable), (Connect ''x.db'', reliable)]
                   initial_registry)) ''x.db'' = 2"
proof -
  let ?cs = "[(Connect ''x.db'', reliable), (Connect ''x.db'', reliable),
              (Disconnect ''x.db'', reliable), (Disconnect ''x.db'', reliable)]"
  have h1: "database_connections initial_registry ''x.db'' = None"
    by (simp add: initial_registry_def)
  have h2: "\<forall>c \<in> set ?cs. fst c = Connect ''x.db'' \<or> fst c = Disconnect ''x.db''" by simp
  have h3: "never_overdrawn ''x.db'' (map fst ?cs)"
    by (simp add: never_overdrawn_def connects_def disconnects_def)
  have pre: "?cs \<in> set (prefixes ?cs)" by (simp only: in_set_prefixes prefix_order.order_refl)
  have ok: "\<forall>c \<in> set ?cs. no_failure (snd c)" by (simp add: no_failure_def reliable_def)
  note T = refcount_lifecycle [OF h1 h2 h3]
  from T have "\<forall>pre \<in> set (prefixes ?cs). (\<forall>c \<in> set pre. no_failure (snd c)) \<longrightarrow> (\<exists>s.
            run_calls pre initial_registry = (None, s) \<and>
            refcount s ''x.db'' =
              int (connects ''x.db'' (map fst pre)) - int (disconnects ''x.db'' (map fst pre)) \<and>
            (database_connections s ''x.db'' = None \<longleftrightarrow>
               connects ''x.db'' (map fst pre) = disconnects ''x.db'' (map fst pre)) \<and>
            (connects ''x.db'' (map fst pre) = disconnects ''x.db'' (map fst pre) \<longrightarrow>
               closed s = closed initial_registry @
                 [next_handle initial_registry ..< next_handle s]))"
    by (elim conjE)
  from mp [OF bspec [OF this pre] ok] obtain s where
    run: "run_calls ?cs initial_registry = (None, s)"
    and rc: "refcount s ''x.db'' =
       int (connects ''x.db'' (map fst ?cs)) - int (disconnects ''x.db'' (map fst ?cs))"
    and ab: "database_connections s ''x.db'' = None \<longleftrightarrow>
       connects ''x.db'' (map fst ?cs) = disconnects ''x.db'' (map fst ?cs)"
    by (elim exE conjE)
  have ev: "closed (snd (run_calls ?cs initial_registry)) = [0]"
    by (simp add: run_calls_def call_step_def connect_def disconnect_def initial_registry_def
        reliable_def Let_def)
  have two: "refcount (snd (run_calls [(Connect ''x.db'', reliable), (Connect ''x.db'', reliable)]
      initial_registry)) ''x.db'' = 2"
    by (simp add: run_calls_def call_step_def connect_def refcount_def initial_registry_def
        reliable_def Let_def)
  from rc have z: "refcount s ''x.db'' = 0" by (simp add: connects_def disconnects_def)
  from ab have n: "database_connections s ''x.db'' = None"
    by (simp add: connects_def disconnects_def)
  from ev run have c: "closed s = [0]" by simp
  from h3 have h3': "never_overdrawn ''x.db''
     [Connect ''x.db'', Connect ''x.db'', Disconnect ''x.db'', Disconnect ''x.db'']" by simp
  show ?thesis
    by (intro conjI exI [of _ s] h3' run z n c two)
qed

text \<open>
  One connect, one disconnect, then the same again, with no library call raising: a
  sequence that never disconnects more than it has connected. The first disconnect
  takes the count to zero, closes handle 0 and removes the entry, so the second connect,
  which is a connect after the first, opens handle 1 with count one instead of returning
  handle 0 with an incremented count; two handles are closed in the run.
\<close>

theorem second_connect_new_handle_counterexample:
  "never_overdrawn ''x.db''
     [Connect ''x.db'', Disconnect ''x.db'', Connect ''x.db'', Disconnect ''x.db''] \<and>
   fst (run_calls [(Connect ''x.db'', reliable), (Disconnect ''x.db'', reliable),
                   (Connect ''x.db'', reliable), (Disconnect ''x.db'', reliable)]
          initial_registry) = None \<and>
   fst (connect reliable ''x.db'' initial_registry) = Inr 0 \<and>
   refcount (snd (run_calls [(Connect ''x.db'', reliable), (Disconnect ''x.db'', reliable)]
                   initial_registry)) ''x.db'' = 0 \<and>
   fst (connect reliable ''x.db''
          (snd (run_calls [(Connect ''x.db'', reliable), (Disconnect ''x.db'', reliable)]
                  initial_registry))) = Inr 1 \<and>
   refcount (snd (run_calls [(Connect ''x.db'', reliable), (Disconnect ''x.db'', reliable),
                             (Connect ''x.db'', reliable)] initial_registry)) ''x.db'' = 1 \<and>
   closed (snd (run_calls [(Connect ''x.db'', reliable), (Disconnect ''x.db'', reliable),
                           (Connect ''x.db'', reliable), (Disconnect ''x.db'', reliable)]
                  initial_registry)) = [0, 1]"
proof -
  have a: "never_overdrawn ''x.db''
     [Connect ''x.db'', Disconnect ''x.db'', Connect ''x.db'', Disconnect ''x.db'']"
    by (simp add: never_overdrawn_def connects_def disconnects_def)
  have b: "run_calls [(Connect ''x.db'', reliable), (Disconnect ''x.db'', reliable)]
      initial_registry =
     (None, \<lparr>database_connections = Map.empty, next_handle = 1, commits = [0], closed = [0]\<rparr>)"
    by (simp add: run_calls_def call_step_def connect_def disconnect_def initial_registry_def
        reliable_def Let_def)
  have c: "run_calls [(Connect ''x.db'', reliable), (Disconnect ''x.db'', reliable),
      (Connect ''x.db'', reliable)] initial_registry =
     (None, \<lparr>database_connections = [''x.db'' \<mapsto> (1, 1)], next_handle = 2, commits = [0],
        closed = [0]\<rparr>)"
    using b run_calls_snoc [of "[(Connect ''x.db'', reliable), (Disconnect ''x.db'', reliable)]"
        "(Connect ''x.db'', reliable)" initial_registry]
    by (simp add: call_step_def connect_def reliable_def Let_def)
  have d: "run_calls [(Connect ''x.db'', reliable), (Disconnect ''x.db'', reliable),
      (Connect ''x.db'', reliable), (Disconnect ''x.db'', reliable)] initial_registry =
     (None, \<lparr>database_connections = Map.empty, next_handle = 2, commits = [0, 1],
        closed = [0, 1]\<rparr>)"
    using c run_calls_snoc [of "[(Connect ''x.db'', reliable), (Disconnect ''x.db'', reliable),
        (Connect ''x.db'', reliable)]" "(Disconnect ''x.db'', reliable)" initial_registry]
    by (simp add: call_step_def disconnect_def reliable_def Let_def)
  have e: "fst (connect reliable ''x.db'' initial_registry) = Inr 0"
    by (simp add: connect_def initial_registry_def reliable_def Let_def)
  show ?thesis
    unfolding b c d using a e by (simp add: connect_def refcount_def reliable_def Let_def)
qed

section \<open>Properties of \<^verbatim>\<open>Table\<close> and \<^verbatim>\<open>TableDict\<close>\<close>

lemma map_of_dict_setitem: "map_of (dict_setitem d k v) = (map_of d)(k \<mapsto> v)"
  by (simp add: dict_setitem_def update_conv')

lemma insert_row_experiment:
  "map_of (insert_row t data kwargs) ''experiment'' = Some (SText (dynamic_identifier t))"
  by (simp add: insert_row_def map_of_dict_setitem)

lemma cell_new_row:
  "c \<in> set (header tb) \<Longrightarrow>
   cell (header tb) (new_row stored_as tb items) c =
     Some (stored_as tb c (case map_of items c of None \<Rightarrow> SNull | Some v \<Rightarrow> v))"
  by (simp add: cell_def new_row_def map_of_zip_map)




lemma db_tables_engine_call: "db_tables (snd (engine_call d)) = db_tables d"
  by (simp add: engine_call_def split: list.splits)

text \<open>
  Claim C9. Every call of \<open>Table.insert\<close> that returns has added one row to the table
  of the parameter, and the column \<^verbatim>\<open>experiment\<close> of that row holds the identifier of
  the running experiment, whatever the caller passed under the key \<^verbatim>\<open>experiment\<close>:
  the key is overwritten before the row is checked. The engine is taken to store the
  text of the identifier as it is in that column, which \<open>Table\<close> declares as text.
\<close>

theorem Table_insert_stamps_identifier:
  assumes "Table_insert stored_as t data kwargs d = (None, d')"
    and "\<forall>tb. stored_as tb ''experiment'' (SText (dynamic_identifier t)) =
           SText (dynamic_identifier t)"
  shows "\<exists>tn tb row. table_name t = Inr tn \<and> db_tables d tn = Some tb \<and>
           db_tables d' = (db_tables d)(tn \<mapsto> tb\<lparr>tbl_rows := tbl_rows tb @ [row]\<rparr>) \<and>
           cell (header tb) row ''experiment'' = Some (SText (dynamic_identifier t))"
proof -
  let ?items = "insert_row t data kwargs"
  from assms(1) obtain tn where tn: "table_name t = Inr tn"
    and ex: "exec_insert stored_as tn ?items d = (None, d')"
    by (auto simp add: Table_insert_def split: if_splits sum.splits)
  obtain f d1 where ec: "engine_call d = (f, d1)" by (cases "engine_call d")
  from db_tables_engine_call [of d] ec have d1: "db_tables d1 = db_tables d" by simp
  from ex ec obtain tb where tb: "db_tables d1 tn = Some tb"
    and sub: "set (map fst ?items) \<subseteq> set (header tb)"
    and d': "d' = d1\<lparr>db_tables := (db_tables d1)(tn \<mapsto>
         tb\<lparr>tbl_rows := tbl_rows tb @ [new_row stored_as tb ?items]\<rparr>)\<rparr>"
    by (auto simp add: exec_insert_def split: option.splits if_splits)
  from insert_row_experiment [of t data kwargs]
  have "''experiment'' \<in> set (map fst ?items)"
    by (metis map_of_eq_None_iff option.distinct(1) set_map)
  with sub have "''experiment'' \<in> set (header tb)" by blast
  then have "cell (header tb) (new_row stored_as tb ?items) ''experiment'' =
      Some (stored_as tb ''experiment'' (SText (dynamic_identifier t)))"
    by (simp add: cell_new_row insert_row_experiment)
  with assms(2) have c: "cell (header tb) (new_row stored_as tb ?items) ''experiment'' =
      Some (SText (dynamic_identifier t))" by simp
  from d' d1 have "db_tables d' = (db_tables d)(tn \<mapsto>
      tb\<lparr>tbl_rows := tbl_rows tb @ [new_row stored_as tb ?items]\<rparr>)" by simp
  with tn tb d1 c show ?thesis by auto
qed

text \<open>
  Claim C10 (as amended). Every call of \<open>insert\<close> on a \<open>TableDict\<close> raises
  \<open>NotImplementedError\<close>, whatever its arguments, and leaves the database as it was:
  direct row insertion through \<open>insert\<close> is disabled on the dictionary variant.
\<close>

theorem TableDict_insert_raises:
  "TableDict_insert td args kwargs d = (Some NotImplementedError, d)"
  by (simp add: TableDict_insert_def)

theorem Table_insert_stamps_identifier_witness:
  "Table_insert (\<lambda>tb c v. v)
     \<lparr>read_only = False, table_index = None,
      table_fields = [(''experiment'', ''text''), (''key'', ''text'')],
      param_name = ''x'', static_experiment = Some (''E'', ''E-1''), dynamic_identifier = ''E-1''\<rparr>
     (Some [(''experiment'', SText ''other''), (''key'', SText ''k'')]) []
     \<lparr>db_tables = [''E__x'' \<mapsto>
        \<lparr>tbl_sql = ''CREATE TABLE E__x (experiment text, key text)'',
         tbl_columns = [(''experiment'', ''text''), (''key'', ''text'')],
         tbl_primary = None, tbl_rows = []\<rparr>], db_faults = []\<rparr> =
   (None,
     \<lparr>db_tables = [''E__x'' \<mapsto>
        \<lparr>tbl_sql = ''CREATE TABLE E__x (experiment text, key text)'',
         tbl_columns = [(''experiment'', ''text''), (''key'', ''text'')],
         tbl_primary = None, tbl_rows = [[SText ''E-1'', SText ''k'']]\<rparr>], db_faults = []\<rparr>) \<and>
   (\<exists>tb row.
      db_tables \<lparr>db_tables = [''E__x'' \<mapsto>
        \<lparr>tbl_sql = ''CREATE TABLE E__x (experiment text, key text)'',
         tbl_columns = [(''experiment'', ''text''), (''key'', ''text'')],
         tbl_primary = None, tbl_rows = []\<rparr>], db_faults = []\<rparr> ''E__x'' = Some tb \<and>
      cell (header tb) row ''experiment'' = Some (SText ''E-1''))"
proof -
  let ?t = "\<lparr>read_only = False, table_index = None,
      table_fields = [(''experiment'', ''text''), (''key'', ''text'')],
      param_name = ''x'', static_experiment = Some (''E'', ''E-1''), dynamic_identifier = ''E-1''\<rparr>"
  let ?tb = "\<lparr>tbl_sql = ''CREATE TABLE E__x (experiment text, key text)'',
         tbl_columns = [(''experiment'', ''text''), (''key'', ''text'')],
         tbl_primary = None, tbl_rows = []\<rparr>"
  let ?d = "\<lparr>db_tables = [''E__x'' \<mapsto> ?tb], db_faults = []\<rparr>"
  let ?data = "Some [(''experiment'', SText ''other''), (''key'', SText ''k'')]"
  have row: "insert_row ?t ?data [] = [(''experiment'', SText ''E-1''), (''key'', SText ''k'')]"
    by (simp add: insert_row_def dict_setitem_def dict_update_def)
  have tn: "table_name ?t = Inr ''E__x''"
    by (simp add: table_name_def after_last_hyphen_def)
  have ev: "Table_insert (\<lambda>tb c v. v) ?t ?data [] ?d =
      (None, \<lparr>db_tables = [''E__x'' \<mapsto> ?tb\<lparr>tbl_rows := [[SText ''E-1'', SText ''k'']]\<rparr>],
              db_faults = []\<rparr>)"
    by (simp add: Table_insert_def row tn exec_insert_def engine_call_def header_def
        primary_key_conflict_def new_row_def)
  have st: "\<forall>tb. (\<lambda>tb c v. v) tb ''experiment'' (SText (dynamic_identifier ?t)) =
      SText (dynamic_identifier ?t)" by simp
  from Table_insert_stamps_identifier [OF ev st]
  obtain tn tb row where "table_name ?t = Inr tn" and "db_tables ?d tn = Some tb"
    and "cell (header tb) row ''experiment'' = Some (SText (dynamic_identifier ?t))"
    by (elim exE conjE)
  with tn have "db_tables ?d ''E__x'' = Some tb \<and>
      cell (header tb) row ''experiment'' = Some (SText ''E-1'')" by simp
  then have c: "\<exists>tb row. db_tables ?d ''E__x'' = Some tb \<and>
      cell (header tb) row ''experiment'' = Some (SText ''E-1'')"
    by (intro exI)
  have e: "Table_insert (\<lambda>tb c v. v) ?t ?data [] ?d =
      (None, \<lparr>db_tables = [''E__x'' \<mapsto>
        \<lparr>tbl_sql = ''CREATE TABLE E__x (experiment text, key text)'',
         tbl_columns = [(''experiment'', ''text''), (''key'', ''text'')],
         tbl_primary = None, tbl_rows = [[SText ''E-1'', SText ''k'']]\<rparr>], db_faults = []\<rparr>)"
    using ev by simp
  show ?thesis by (intro conjI e c)
qed

text \<open>
  The backing table of a \<open>TableDict\<close> can be changed without any change of the
  dictionary and without a flush: \<^verbatim>\<open>clear()\<close>, which a \<open>TableDict\<close> inherits from
  \<open>Table\<close>, deletes the rows of the running experiment from the table at once.
\<close>

theorem TableDict_clear_counterexample:
  "TableDict_clear (\<lambda>tb c v. v)
     ((TableDict_init ''x'' (Some (''E'', ''E-1'')) ''E-1'')\<lparr>read_only := False\<rparr>)
     \<lparr>db_tables = [''E__x'' \<mapsto>
        \<lparr>tbl_sql = ''CREATE TABLE E__x (experiment text, key text PRIMARY KEY, value text)'',
         tbl_columns = [(''experiment'', ''text''), (''key'', ''text''), (''value'', ''text'')],
         tbl_primary = Some ''key'',
         tbl_rows = [[SText ''E-1'', SText ''a'', SText ''1'']]\<rparr>], db_faults = []\<rparr> =
   (None,
     \<lparr>db_tables = [''E__x'' \<mapsto>
        \<lparr>tbl_sql = ''CREATE TABLE E__x (experiment text, key text PRIMARY KEY, value text)'',
         tbl_columns = [(''experiment'', ''text''), (''key'', ''text''), (''value'', ''text'')],
         tbl_primary = Some ''key'', tbl_rows = []\<rparr>], db_faults = []\<rparr>)"
proof -
  have tn: "table_name
      ((TableDict_init ''x'' (Some (''E'', ''E-1'')) ''E-1'')\<lparr>read_only := False\<rparr>) = Inr ''E__x''"
    by (simp add: table_name_def TableDict_init_def after_last_hyphen_def)
  show ?thesis
    unfolding TableDict_clear_def Table_clear_def tn
    by (simp add: exec_delete_def engine_call_def header_def of_experiment_def cell_def
        TableDict_init_def)
qed

section \<open>Properties of the parameter lifecycle\<close>















section \<open>The round trip of a \<^verbatim>\<open>TableDict\<close>\<close>






















end
